theory Spec2Isabelle
  imports Complex_Main "HOL-Library.Sublist"
begin

section \<open>Python strings\<close>

text \<open>
  The scraper is one Python module, \<^verbatim>\<open>ups_scraper_server.py\<close>. Its strings are
  modelled as \<^typ>\<open>string\<close> with a \<^typ>\<open>char\<close> standing for the code point of the same
  number, so the alphabet is Latin-1 (code points 0 to 255). The character classes below are
  what \<^verbatim>\<open>str.isspace\<close>, \<^verbatim>\<open>str.lower\<close> and the \<^verbatim>\<open>re\<close> classes \<^verbatim>\<open>\s\<close>, \<^verbatim>\<open>\d\<close>
  are on these code points.
\<close>

definition is_space :: "char \<Rightarrow> bool" where
  \<comment> \<open>\<^verbatim>\<open>str.isspace\<close> and \<^verbatim>\<open>\s\<close>: TAB, LF, VT, FF, CR, FS, GS, RS, US, the blank,
      NEL and the no-break space.\<close>
  "is_space c \<longleftrightarrow>
     c \<in> set [CHR 0x09, CHR 0x0A, CHR 0x0B, CHR 0x0C, CHR 0x0D,
               CHR 0x1C, CHR 0x1D, CHR 0x1E, CHR 0x1F, CHR 0x20, CHR 0x85, CHR 0xA0]"

definition is_digit :: "char \<Rightarrow> bool" where
  \<comment> \<open>\<^verbatim>\<open>\d\<close> and \<^verbatim>\<open>[0-9]\<close>.\<close>
  "is_digit c \<longleftrightarrow> c \<in> set ''0123456789''"

text \<open>
  \<^verbatim>\<open>str.lower\<close>: the capital letters, \<^verbatim>\<open>A\<close> to \<^verbatim>\<open>Z\<close> and the code points 0xC0 to 0xDE
  without the multiplication sign 0xD7, and the small letter of each, 0x20 further on.
\<close>

definition upper_chars :: string where
  "upper_chars =
     ''ABCDEFGHIJKLMNOPQRSTUVWXYZ'' @
     [CHR 0xC0, CHR 0xC1, CHR 0xC2, CHR 0xC3, CHR 0xC4, CHR 0xC5, CHR 0xC6, CHR 0xC7,
      CHR 0xC8, CHR 0xC9, CHR 0xCA, CHR 0xCB, CHR 0xCC, CHR 0xCD, CHR 0xCE, CHR 0xCF,
      CHR 0xD0, CHR 0xD1, CHR 0xD2, CHR 0xD3, CHR 0xD4, CHR 0xD5, CHR 0xD6, CHR 0xD8,
      CHR 0xD9, CHR 0xDA, CHR 0xDB, CHR 0xDC, CHR 0xDD, CHR 0xDE]"

definition lower_chars :: string where
  "lower_chars =
     ''abcdefghijklmnopqrstuvwxyz'' @
     [CHR 0xE0, CHR 0xE1, CHR 0xE2, CHR 0xE3, CHR 0xE4, CHR 0xE5, CHR 0xE6, CHR 0xE7,
      CHR 0xE8, CHR 0xE9, CHR 0xEA, CHR 0xEB, CHR 0xEC, CHR 0xED, CHR 0xEE, CHR 0xEF,
      CHR 0xF0, CHR 0xF1, CHR 0xF2, CHR 0xF3, CHR 0xF4, CHR 0xF5, CHR 0xF6, CHR 0xF8,
      CHR 0xF9, CHR 0xFA, CHR 0xFB, CHR 0xFC, CHR 0xFD, CHR 0xFE]"

definition lower_char :: "char \<Rightarrow> char" where
  "lower_char c = (case map_of (zip upper_chars lower_chars) c of Some d \<Rightarrow> d | None \<Rightarrow> c)"

definition py_lower :: "string \<Rightarrow> string" where
  "py_lower s = map lower_char s"

definition py_strip :: "string \<Rightarrow> string" where
  "py_strip s = rev (dropWhile is_space (rev (dropWhile is_space s)))"

text \<open>The operator \<^verbatim>\<open>pat in s\<close> on strings: \<open>pat\<close> occurs in \<open>s\<close> at some position.\<close>

fun py_in :: "string \<Rightarrow> string \<Rightarrow> bool" where
  "py_in pat [] = (pat = [])"
| "py_in pat (c # cs) = (prefix pat (c # cs) \<or> py_in pat cs)"

text \<open>
  \<^verbatim>\<open>s.replace(old, new)\<close> for a non-empty \<open>old\<close>: every occurrence, found from left to
  right and not overlapping the one before, is replaced. (The source only calls it with the
  non-empty \<open>old\<close> strings \<^verbatim>\<open>"%"\<close> and \<^verbatim>\<open>"Bearer "\<close>.)
\<close>

fun py_replace :: "string \<Rightarrow> string \<Rightarrow> string \<Rightarrow> string" where
  "py_replace old new [] = []"
| "py_replace old new (c # cs) =
     (if old \<noteq> [] \<and> prefix old (c # cs)
      then new @ py_replace old new (drop (length old - 1) cs)
      else c # py_replace old new cs)"

text \<open>
  The exceptions that occur: the two raised by the built-in operations, and the one that
  \<^verbatim>\<open>abort(code)\<close> raises to end a request with an HTTP status.
\<close>

datatype py_error = ValueError | AttributeError | HTTPException nat

text \<open>The value of a run of decimal digits.\<close>

definition digit_val :: "char \<Rightarrow> nat" where
  "digit_val c = of_char c - 48"

definition nat_of_digits :: "string \<Rightarrow> nat" where
  "nat_of_digits ds = foldl (\<lambda>n c. 10 * n + digit_val c) 0 ds"

text \<open>
  \<^verbatim>\<open>int(s)\<close>. The source calls it only on the group \<^verbatim>\<open>(\d+)\<close> of a match, a
  non-empty run of digits, and there it is the value of the run, unless the run is longer
  than the interpreter allows: by default \<^verbatim>\<open>int\<close> raises \<^verbatim>\<open>ValueError\<close> on a string of
  more than 4300 digits (\<^verbatim>\<open>sys.int_info.default_max_str_digits\<close>). Anything that is not a
  run of digits is rejected here.
\<close>

definition max_str_digits :: nat where
  "max_str_digits = 4300"

definition py_int :: "string \<Rightarrow> py_error + int" where
  "py_int s =
     (if s \<noteq> [] \<and> list_all is_digit s \<and> length s \<le> max_str_digits
      then Inr (int (nat_of_digits s))
      else Inl ValueError)"

subsection \<open>\<^verbatim>\<open>float(s)\<close>\<close>

text \<open>
  A Python float is written as the number it is read from: \<open>Fin q\<close> stands for the double
  nearest to the rational \<open>q\<close> (rounding, overflow to infinity and the sign of zero are not
  represented), next to the two infinities and NaN.
\<close>

datatype pyfloat = Fin rat | PosInf | NegInf | NaN

text \<open>
  \<^verbatim>\<open>digitpart ::= digit (["_"] digit)*\<close>: the digits read (underscores dropped) and the
  rest of the input.
\<close>

fun digitpart :: "string \<Rightarrow> string \<times> string" where
  "digitpart [] = ([], [])"
| "digitpart [c] = (if is_digit c then ([c], []) else ([], [c]))"
| "digitpart (c # u # cs) =
     (if is_digit c then
        (if u = CHR ''_'' \<and> cs \<noteq> [] \<and> is_digit (hd cs)
         then (case digitpart cs of (ds, r) \<Rightarrow> (c # ds, r))
         else (case digitpart (u # cs) of (ds, r) \<Rightarrow> (c # ds, r)))
      else ([], c # u # cs))"

text \<open>\<^verbatim>\<open>exponent ::= ("e" | "E") [sign] digitpart\<close>, or nothing, up to the end of the input.\<close>

definition exponent :: "string \<Rightarrow> int option" where
  "exponent s =
     (case s of
        [] \<Rightarrow> Some 0
      | c # r \<Rightarrow>
          if c = CHR ''e'' then
            (let (neg, r') = (case r of
                                [] \<Rightarrow> (False, r)
                              | x # xs \<Rightarrow> if x = CHR ''-'' then (True, xs)
                                         else if x = CHR ''+'' then (False, xs)
                                         else (False, r))
             in case digitpart r' of
                  (ds, rest) \<Rightarrow>
                    if ds \<noteq> [] \<and> rest = []
                    then Some (if neg then - int (nat_of_digits ds) else int (nat_of_digits ds))
                    else None)
          else None)"

text \<open>
  \<^verbatim>\<open>floatnumber ::= ([digitpart] "." digitpart | digitpart ["."]) [exponent]\<close>, read as
  the rational it denotes.
\<close>

definition floatnumber :: "string \<Rightarrow> rat option" where
  "floatnumber s =
     (case digitpart s of
        (ip, r1) \<Rightarrow>
          (let (fp, r2) = (case r1 of
                             [] \<Rightarrow> ([], r1)
                           | c # r \<Rightarrow> if c = CHR ''.'' then digitpart r else ([], r1))
           in if ip = [] \<and> fp = [] then None
              else (case exponent r2 of
                      None \<Rightarrow> None
                    | Some e \<Rightarrow>
                        (let m = of_nat (nat_of_digits (ip @ fp)); k = e - int (length fp)
                         in Some (if 0 \<le> k then m * 10 ^ nat k else m / 10 ^ nat (- k))))))"

definition py_float :: "string \<Rightarrow> py_error + pyfloat" where
  "py_float s =
     (let t = py_lower (py_strip s);
          (neg, u) = (case t of
                        [] \<Rightarrow> (False, t)
                      | c # r \<Rightarrow> if c = CHR ''-'' then (True, r)
                                 else if c = CHR ''+'' then (False, r)
                                 else (False, t))
      in if u = ''inf'' \<or> u = ''infinity'' then Inr (if neg then NegInf else PosInf)
         else if u = ''nan'' then Inr NaN
         else (case floatnumber u of
                 None \<Rightarrow> Inl ValueError
               | Some q \<Rightarrow> Inr (Fin (if neg then - q else q))))"

section \<open>Regular expressions\<close>

text \<open>
  The \<^verbatim>\<open>re\<close> engine tries the start positions from left to right and, at each of them,
  the ways to match in the order of its backtracking search; the first success is the match.
  A quantified character class is modelled by the list of the ways to split the input at it,
  in that order: a greedy quantifier offers the longest run first, a lazy one the shortest.
\<close>

definition greedy_splits :: "(char \<Rightarrow> bool) \<Rightarrow> nat \<Rightarrow> string \<Rightarrow> (string \<times> string) list" where
  \<comment> \<open>\<^verbatim>\<open>X*\<close> (\<open>lo = 0\<close>) and \<^verbatim>\<open>X+\<close> (\<open>lo = 1\<close>).\<close>
  "greedy_splits P lo s =
     map (\<lambda>k. (take k s, drop k s)) (rev [lo ..< Suc (length (takeWhile P s))])"

definition lazy_splits :: "(char \<Rightarrow> bool) \<Rightarrow> nat \<Rightarrow> string \<Rightarrow> (string \<times> string) list" where
  \<comment> \<open>\<^verbatim>\<open>X*?\<close> (\<open>lo = 0\<close>).\<close>
  "lazy_splits P lo s =
     map (\<lambda>k. (take k s, drop k s)) [lo ..< Suc (length (takeWhile P s))]"

definition opt_splits :: "(char \<Rightarrow> bool) \<Rightarrow> string \<Rightarrow> (string \<times> string) list" where
  \<comment> \<open>\<^verbatim>\<open>X?\<close>: with the character first, then without.\<close>
  "opt_splits P s =
     (case s of
        [] \<Rightarrow> [([], [])]
      | c # cs \<Rightarrow> if P c then [([c], cs), ([], s)] else [([], s)])"

definition first_match :: "'a list \<Rightarrow> 'a option" where
  "first_match xs = (case xs of [] \<Rightarrow> None | x # _ \<Rightarrow> Some x)"

text \<open>\<^verbatim>\<open>re.search\<close>: the match at the leftmost position that has one.\<close>

fun re_search :: "(string \<Rightarrow> 'a option) \<Rightarrow> string \<Rightarrow> 'a option" where
  "re_search m [] = m []"
| "re_search m (c # cs) = (case m (c # cs) of Some g \<Rightarrow> Some g | None \<Rightarrow> re_search m cs)"

text \<open>
  \<^verbatim>\<open>(\d+)\s*mn\<close> and \<^verbatim>\<open>(\d+)\s*s\<close> at the head of the input, with the literal as a
  parameter: the text of group 1.
\<close>

definition match_int_before :: "string \<Rightarrow> string \<Rightarrow> string option" where
  "match_int_before lit s =
     first_match
       [g. (g, r) \<leftarrow> greedy_splits is_digit 1 s,
           (w, r') \<leftarrow> greedy_splits is_space 0 r,
           prefix lit r']"

text \<open>\<^verbatim>\<open>[-+]?[0-9]*\.?[0-9]+\<close> at the head of the input: the text of the whole match.\<close>

definition match_numeral :: "string \<Rightarrow> string option" where
  "match_numeral s =
     first_match
       [a @ b @ c @ d.
          (a, r1) \<leftarrow> opt_splits (\<lambda>x. x = CHR ''-'' \<or> x = CHR ''+'') s,
          (b, r2) \<leftarrow> greedy_splits is_digit 0 r1,
          (c, r3) \<leftarrow> opt_splits (\<lambda>x. x = CHR ''.'') r2,
          (d, r4) \<leftarrow> greedy_splits is_digit 1 r3]"

section \<open>The value normaliser: \<^verbatim>\<open>clean_value\<close>\<close>

datatype measurement = Null | IntV int | Number pyfloat | Str string

text \<open>
  The body of the \<^verbatim>\<open>try\<close> block, on the stripped and lowered value: \<open>Inl\<close> is an
  exception raised in it. A failed \<^verbatim>\<open>re.search\<close> returns \<^verbatim>\<open>None\<close>, and
  \<^verbatim>\<open>.group\<close> on it raises \<^verbatim>\<open>AttributeError\<close>.
\<close>

definition clean_try :: "string \<Rightarrow> py_error + measurement" where
  "clean_try val =
     (if py_in ''mn'' val \<and> py_in ''s'' val then
        (case re_search (match_int_before ''mn'') val of
           None \<Rightarrow> Inl AttributeError
         | Some g1 \<Rightarrow>
             (case py_int g1 of
                Inl e \<Rightarrow> Inl e
              | Inr mins \<Rightarrow>
                  (case re_search (match_int_before ''s'') val of
                     None \<Rightarrow> Inl AttributeError
                   | Some g2 \<Rightarrow>
                       (case py_int g2 of
                          Inl e \<Rightarrow> Inl e
                        | Inr secs \<Rightarrow> Inr (IntV (mins * 60 + secs))))))
      else if py_in ''%'' val then
        (case py_float (py_strip (py_replace ''%'' [] val)) of
           Inl e \<Rightarrow> Inl e
         | Inr x \<Rightarrow> Inr (Number x))
      else
        (case re_search match_numeral val of
           None \<Rightarrow> Inl AttributeError
         | Some g \<Rightarrow>
             (case py_float g of
                Inl e \<Rightarrow> Inl e
              | Inr x \<Rightarrow> Inr (Number x))))"

definition clean_value :: "string \<Rightarrow> measurement" where
  "clean_value raw =
     (let val = py_lower (py_strip raw)
      in if val \<in> set [''unknown'', ''-'', ''''] then Null
         else (case clean_try val of
                 Inr v \<Rightarrow> v
               | Inl e \<Rightarrow> Str val))"

section \<open>The request gate: \<^verbatim>\<open>require_api_key\<close>\<close>

text \<open>
  The configuration is the four module globals read from the environment
  (\<^verbatim>\<open>os.getenv\<close> gives \<^verbatim>\<open>None\<close> for a variable that is not set), and of a request
  the handler reads one header and two query arguments.
\<close>

record config =
  UPS_IP :: "string option"
  USERNAME :: "string option"
  PASSWORD :: "string option"
  SERVER_API_KEY :: "string option"

record request =
  header_Authorization :: "string option"
  arg_api_key :: "string option"
  arg_format :: "string option"

text \<open>Python's truth value of an optional string: \<^verbatim>\<open>None\<close> and \<^verbatim>\<open>""\<close> are false.\<close>

definition truthy :: "string option \<Rightarrow> bool" where
  "truthy x = (case x of None \<Rightarrow> False | Some s \<Rightarrow> s \<noteq> [])"

datatype gate = Allow | Abort nat

definition require_api_key :: "config \<Rightarrow> request \<Rightarrow> gate" where
  "require_api_key cfg req =
     (let key_from_header =
            py_replace ''Bearer '' [] (case header_Authorization req of None \<Rightarrow> [] | Some h \<Rightarrow> h);
          key_from_query = arg_api_key req
      in if truthy (SERVER_API_KEY cfg) \<and>
            (Some key_from_header \<noteq> SERVER_API_KEY cfg \<and> key_from_query \<noteq> SERVER_API_KEY cfg)
         then Abort 401
         else Allow)"

section \<open>Parsed HTML\<close>

text \<open>
  \<^verbatim>\<open>BeautifulSoup(table_html, "html.parser")\<close> is a library call: the parser is a
  parameter of the handler, and its result is a tree of tags (name, the list of the
  \<^verbatim>\<open>class\<close> attribute's values, children) and text nodes. Nodes that neither
  \<^verbatim>\<open>find\<close>, \<^verbatim>\<open>find_all\<close> nor \<^verbatim>\<open>get_text\<close> look at (comments, declarations) are left
  out.
\<close>

datatype html = Tag string "string list" "html list" | NavigableString string

text \<open>The nodes below a node, in document order.\<close>

fun descendants :: "html \<Rightarrow> html list" where
  "descendants (Tag name classes kids) = concat (map (\<lambda>k. k # descendants k) kids)"
| "descendants (NavigableString s) = []"

fun is_tag :: "string \<Rightarrow> html \<Rightarrow> bool" where
  "is_tag name (Tag n classes kids) = (n = name)"
| "is_tag name (NavigableString s) = False"

fun has_class :: "string \<Rightarrow> html \<Rightarrow> bool" where
  "has_class c (Tag n classes kids) = (c \<in> set classes)"
| "has_class c (NavigableString s) = False"

definition find_all :: "string \<Rightarrow> html \<Rightarrow> html list" where
  "find_all name t = filter (is_tag name) (descendants t)"

definition find_all_class :: "string \<Rightarrow> string \<Rightarrow> html \<Rightarrow> html list" where
  \<comment> \<open>\<^verbatim>\<open>find_all(name, class_=c)\<close>\<close>
  "find_all_class name c t = filter (\<lambda>x. is_tag name x \<and> has_class c x) (descendants t)"

definition find_tag :: "string \<Rightarrow> html \<Rightarrow> html option" where
  \<comment> \<open>\<^verbatim>\<open>find(name)\<close>: the first one, or \<^verbatim>\<open>None\<close>\<close>
  "find_tag name t = first_match (find_all name t)"

fun all_strings :: "html \<Rightarrow> string list" where
  "all_strings (Tag name classes kids) = concat (map all_strings kids)"
| "all_strings (NavigableString s) = [s]"

definition get_text :: "html \<Rightarrow> string" where
  \<comment> \<open>the property \<^verbatim>\<open>.text\<close>\<close>
  "get_text t = concat (all_strings t)"

definition get_text_strip :: "html \<Rightarrow> string" where
  \<comment> \<open>\<^verbatim>\<open>get_text(strip=True)\<close>: every string stripped, the empty ones dropped\<close>
  "get_text_strip t = concat (filter (\<lambda>x. x \<noteq> []) (map py_strip (all_strings t)))"

section \<open>The handler: \<^verbatim>\<open>get_ups_data\<close>\<close>

text \<open>
  A Python \<^verbatim>\<open>dict\<close> keeps its keys in the order of their first insertion: an assignment
  to a key that is present replaces the value where it stands.
\<close>

fun dict_set :: "'k \<Rightarrow> 'v \<Rightarrow> ('k \<times> 'v) list \<Rightarrow> ('k \<times> 'v) list" where
  "dict_set k v [] = [(k, v)]"
| "dict_set k v ((k', v') # d) = (if k' = k then (k, v) # d else (k', v') # dict_set k v d)"

text \<open>\<^verbatim>\<open>label=(<TABLE.*?</TABLE>)\<close> with \<^verbatim>\<open>re.DOTALL\<close> at the head of the input: group 1.\<close>

definition lit_splits :: "string \<Rightarrow> string \<Rightarrow> (string \<times> string) list" where
  "lit_splits lit s = (if prefix lit s then [(lit, drop (length lit) s)] else [])"

definition match_table :: "string \<Rightarrow> string option" where
  "match_table s =
     first_match
       [''<TABLE'' @ b @ e.
          (l, r) \<leftarrow> lit_splits ''label=<TABLE'' s,
          (b, r') \<leftarrow> lazy_splits (\<lambda>c. True) 0 r,
          (e, r'') \<leftarrow> lit_splits ''</TABLE>'' r']"

text \<open>
  \<^verbatim>\<open>re.findall\<close>: the matches from left to right, each search starting where the match
  before it ended, that is \<^verbatim>\<open>label=\<close> and the group further on.
\<close>

fun findall_tables :: "string \<Rightarrow> string list" where
  "findall_tables [] = []"
| "findall_tables (c # cs) =
     (case match_table (c # cs) of
        Some g \<Rightarrow> g # findall_tables (drop (length ''label='' + length g) (c # cs))
      | None \<Rightarrow> findall_tables cs)"

text \<open>The inner loop, over the rows of one table.\<close>

fun rows_loop :: "string \<Rightarrow> html list \<Rightarrow> (string \<times> measurement) list \<Rightarrow> (string \<times> measurement) list" where
  "rows_loop fmt [] data = data"
| "rows_loop fmt (row # rows) data =
     (let cols = find_all ''td'' row
      in if length cols = 2
         then (let key = get_text_strip (cols ! 0);
                   value = get_text_strip (cols ! 1)
               in rows_loop fmt rows
                    (dict_set key (if fmt = ''raw'' then clean_value value else Str value) data))
         else rows_loop fmt rows data)"

text \<open>
  The outer loop, over the table fragments. \<^verbatim>\<open>soup.find("b")\<close> is \<^verbatim>\<open>None\<close> when the
  fragment has no \<^verbatim>\<open>b\<close> element, and \<^verbatim>\<open>.text\<close> on it raises \<^verbatim>\<open>AttributeError\<close>;
  nothing in the handler catches it.
\<close>

fun tables_loop ::
  "(string \<Rightarrow> html) \<Rightarrow> string \<Rightarrow> string list \<Rightarrow> (string \<times> (string \<times> measurement) list) list
     \<Rightarrow> py_error + (string \<times> (string \<times> measurement) list) list" where
  "tables_loop parse fmt [] ups_data = Inr ups_data"
| "tables_loop parse fmt (table_html # rest) ups_data =
     (let soup = parse table_html
      in case find_tag ''b'' soup of
           None \<Rightarrow> Inl AttributeError
         | Some b \<Rightarrow>
             (let section = py_strip (get_text b);
                  data = rows_loop fmt (find_all_class ''tr'' ''popupData'' soup) []
              in tables_loop parse fmt rest (dict_set section data ups_data)))"

datatype json = JString string | JObject "(string \<times> measurement) list"

datatype body = ErrorBody string | DocumentBody "(string \<times> json) list"

datatype response = Response nat body

record request_kwargs =
  verify :: bool
  timeout :: nat
  auth :: "(string \<times> string) option"

text \<open>\<^verbatim>\<open>{"timestamp": now, **ups_data}\<close>\<close>

definition document :: "string \<Rightarrow> (string \<times> (string \<times> measurement) list) list \<Rightarrow> (string \<times> json) list" where
  "document now ups_data =
     foldl (\<lambda>d (k, v). dict_set k (JObject v) d) [(''timestamp'', JString now)] ups_data"

text \<open>
  The handler. Its surroundings are parameters: \<open>parse\<close> is the HTML parser, \<open>now\<close> the
  clock's reading when the document is put together, and \<open>net n url kwargs\<close> the outcome
  of the \<open>n\<close>-th call of \<^verbatim>\<open>requests.get\<close> that the process makes, \<open>Inr\<close> the text of
  the response and \<open>Inl\<close> the message of the exception raised. The handler is given the
  number of calls made so far and returns the new number with its result; \<open>Inl\<close> in the
  result is an exception that leaves the handler.
\<close>

definition ups_url :: "config \<Rightarrow> string" where
  \<comment> \<open>the f-string; \<^verbatim>\<open>str(None)\<close> is \<^verbatim>\<open>"None"\<close>\<close>
  "ups_url cfg =
     ''https://'' @ (case UPS_IP cfg of None \<Rightarrow> ''None'' | Some ip \<Rightarrow> ip)
       @ ''/html/synoptic/ups_measure_11_simple.js''"

definition fetch_kwargs :: "config \<Rightarrow> request_kwargs" where
  "fetch_kwargs cfg =
     \<lparr>verify = False, timeout = 5,
      auth = (case (USERNAME cfg, PASSWORD cfg) of
                (Some u, Some p) \<Rightarrow> if u \<noteq> [] \<and> p \<noteq> [] then Some (u, p) else None
              | _ \<Rightarrow> None)\<rparr>"

definition get_ups_data ::
  "(string \<Rightarrow> html) \<Rightarrow> (nat \<Rightarrow> string \<Rightarrow> request_kwargs \<Rightarrow> string + string) \<Rightarrow> string
     \<Rightarrow> config \<Rightarrow> request \<Rightarrow> nat \<Rightarrow> (py_error + response) \<times> nat" where
  "get_ups_data parse net now cfg req calls =
     (let fmt = py_lower (case arg_format req of None \<Rightarrow> ''json'' | Some f \<Rightarrow> f)
      in case net calls (ups_url cfg) (fetch_kwargs cfg) of
           Inl e \<Rightarrow> (Inr (Response 500 (ErrorBody e)), Suc calls)
         | Inr js_content \<Rightarrow>
             (case tables_loop parse fmt (findall_tables js_content) [] of
                Inl err \<Rightarrow> (Inl err, Suc calls)
              | Inr ups_data \<Rightarrow>
                  (Inr (Response 200 (DocumentBody (document now ups_data))), Suc calls)))"

text \<open>
  The route: the handler wrapped by the decorator \<^verbatim>\<open>require_api_key\<close>. When the gate
  aborts, the handler does not run and no outbound call is made.
\<close>

definition decorated ::
  "(string \<Rightarrow> html) \<Rightarrow> (nat \<Rightarrow> string \<Rightarrow> request_kwargs \<Rightarrow> string + string) \<Rightarrow> string
     \<Rightarrow> config \<Rightarrow> request \<Rightarrow> nat \<Rightarrow> (py_error + response) \<times> nat" where
  "decorated parse net now cfg req calls =
     (case require_api_key cfg req of
        Abort code \<Rightarrow> (Inl (HTTPException code), calls)
      | Allow \<Rightarrow> get_ups_data parse net now cfg req calls)"

section \<open>The specification's wording, for comparison\<close>

text \<open>
  The specification describes the header's key as the header value without a leading
  \<^verbatim>\<open>"Bearer "\<close> prefix; the handler uses \<^verbatim>\<open>replace\<close>. The specification's reading is:
\<close>

definition spec_strip_bearer :: "string \<Rightarrow> string" where
  "spec_strip_bearer h = (if prefix ''Bearer '' h then drop (length ''Bearer '') h else h)"

section \<open>Example inputs\<close>

text \<open>
  A configuration and a request without credentials, a payload with two table fragments of
  which the first has no \<^verbatim>\<open>b\<close> element, a parser that reads these two fragments, and
  networks that deliver the payload or its second fragment alone.
\<close>

definition cfg0 :: config where
  "cfg0 = \<lparr>UPS_IP = Some ''10.0.0.1'', USERNAME = None, PASSWORD = None, SERVER_API_KEY = None\<rparr>"

definition req0 :: request where
  "req0 = \<lparr>header_Authorization = None, arg_api_key = None, arg_format = None\<rparr>"

definition two_tables :: string where
  "two_tables = ''label=<TABLE></TABLE>label=<TABLE><b>Battery</b></TABLE>''"

definition parse_two :: "string \<Rightarrow> html" where
  "parse_two t =
     (if t = ''<TABLE></TABLE>'' then Tag ''[document]'' [] [Tag ''table'' [] []]
      else Tag ''[document]'' [] [Tag ''table'' [] [Tag ''b'' [] [NavigableString ''Battery'']]])"

definition net_two :: "nat \<Rightarrow> string \<Rightarrow> request_kwargs \<Rightarrow> string + string" where
  "net_two n url kw = Inr two_tables"

definition net_one :: "nat \<Rightarrow> string \<Rightarrow> request_kwargs \<Rightarrow> string + string" where
  "net_one n url kw = Inr ''label=<TABLE><b>Battery</b></TABLE>''"

text \<open>
  The label and the raw value of every row that qualifies (exactly two cells), in the order
  of the rows: what the specification calls the fields of a table.
\<close>

definition qualifying_fields :: "html list \<Rightarrow> (string \<times> string) list" where
  "qualifying_fields rows =
     map (\<lambda>row. (get_text_strip (find_all ''td'' row ! 0), get_text_strip (find_all ''td'' row ! 1)))
       (filter (\<lambda>row. length (find_all ''td'' row) = 2) rows)"

text \<open>A table with three qualifying rows, labelled \<^verbatim>\<open>A\<close>, \<^verbatim>\<open>B\<close>, \<^verbatim>\<open>A\<close>.\<close>

definition table_aba :: html where
  "table_aba =
     Tag ''[document]'' []
       [Tag ''table'' []
          [Tag ''b'' [] [NavigableString ''Battery''],
           Tag ''tr'' [''popupData'']
             [Tag ''td'' [] [NavigableString ''A''], Tag ''td'' [] [NavigableString ''1 V'']],
           Tag ''tr'' [''popupData'']
             [Tag ''td'' [] [NavigableString ''B''], Tag ''td'' [] [NavigableString ''2 V'']],
           Tag ''tr'' [''popupData'']
             [Tag ''td'' [] [NavigableString ''A''], Tag ''td'' [] [NavigableString ''3 V'']]]]"



section \<open>Facts about the character classes and the regular expressions\<close>

lemma digit_not_space: "is_digit c \<Longrightarrow> \<not> is_space c"
  by (auto simp: is_digit_def is_space_def)

lemma lower_char_digit: "is_digit c \<Longrightarrow> lower_char c = c"
  unfolding is_digit_def lower_char_def upper_chars_def lower_chars_def
  by (simp, elim disjE; simp)

lemma lower_char_space: "is_space c \<Longrightarrow> lower_char c = c"
  unfolding is_space_def lower_char_def upper_chars_def lower_chars_def
  by (simp, elim disjE; simp)

lemma hd_drop_takeWhile:
  assumes "k < length (takeWhile P s)"
  shows "drop k s \<noteq> [] \<and> P (hd (drop k s))"
proof -
  have len: "k < length s"
    using assms length_takeWhile_le [of P s] by (rule less_le_trans)
  have "hd (drop k s) = s ! k"
    using len by (simp add: hd_drop_conv_nth)
  also have "\<dots> = takeWhile P s ! k"
    using assms by (simp add: takeWhile_nth)
  finally have "hd (drop k s) \<in> set (takeWhile P s)"
    using assms by simp
  then have "P (hd (drop k s))"
    by (rule set_takeWhileD [THEN conjunct2])
  with len show ?thesis by simp
qed

lemma concat_map_Nil: "(\<And>x. x \<in> set xs \<Longrightarrow> f x = []) \<Longrightarrow> concat (map f xs) = []"
  by (induction xs) auto

lemma greedy_splits_Cons:
  assumes "lo \<le> length (takeWhile P s)"
  shows "greedy_splits P lo s =
     (takeWhile P s, dropWhile P s) #
     map (\<lambda>k. (take k s, drop k s)) (rev [lo ..< length (takeWhile P s)])"
proof -
  let ?n = "length (takeWhile P s)"
  have "[lo ..< Suc ?n] = [lo ..< ?n] @ [?n]"
    using assms by simp
  moreover have "take ?n s = takeWhile P s"
    by (rule takeWhile_eq_take [symmetric])
  moreover have "drop ?n s = dropWhile P s"
    by (rule dropWhile_eq_drop [symmetric])
  ultimately show ?thesis
    unfolding greedy_splits_def by simp
qed

lemma greedy_splits_Nil:
  "length (takeWhile P s) < lo \<Longrightarrow> greedy_splits P lo s = []"
  by (simp add: greedy_splits_def)


lemma prefix_hd: "prefix lit x \<Longrightarrow> lit \<noteq> [] \<Longrightarrow> x \<noteq> [] \<and> hd x = hd lit"
  by (cases lit; cases x) auto

lemma not_prefix_drop:
  assumes "k < length (takeWhile P s)" "lit \<noteq> []" "\<not> P (hd lit)"
  shows "\<not> prefix lit (drop k s)"
  using hd_drop_takeWhile [OF assms(1)] prefix_hd [of lit "drop k s"] assms(2,3) by auto

lemma space_splits_first:
  assumes "lit \<noteq> []" "\<not> is_space (hd lit)"
  shows "[g. (w, r') \<leftarrow> greedy_splits is_space 0 r, prefix lit r'] =
         (if prefix lit (dropWhile is_space r) then [g] else [])"
proof -
  let ?n = "length (takeWhile is_space r)"
  have no: "\<not> prefix lit (drop k r)" if "k < ?n" for k
    using that assms by (rule not_prefix_drop)
  have "concat (map (\<lambda>k. if prefix lit (drop k r) then [g] else []) (rev [0 ..< ?n])) = []"
    by (rule concat_map_Nil) (use no in auto)
  then show ?thesis
    by (simp add: greedy_splits_Cons [of 0] comp_def)
qed

lemma match_int_before_simp:
  assumes "lit \<noteq> []" "\<not> is_space (hd lit)" "\<not> is_digit (hd lit)"
  shows "match_int_before lit s =
         (if takeWhile is_digit s \<noteq> [] \<and> prefix lit (dropWhile is_space (dropWhile is_digit s))
          then Some (takeWhile is_digit s) else None)"
proof (cases "takeWhile is_digit s = []")
  case True
  then have "greedy_splits is_digit 1 s = []"
    by (simp add: greedy_splits_Nil)
  with True show ?thesis
    by (simp add: match_int_before_def first_match_def)
next
  case False
  let ?n = "length (takeWhile is_digit s)"
  define F :: "string \<times> string \<Rightarrow> string list"
    where "F = (\<lambda>(g, r). if prefix lit (dropWhile is_space r) then [g] else [])"
  have le: "Suc 0 \<le> ?n"
    using False by (simp add: Suc_le_eq)
  have shorter: "\<not> prefix lit (dropWhile is_space (drop k s))" if "k < ?n" for k
  proof -
    from hd_drop_takeWhile [OF that]
    have "drop k s \<noteq> []" and "is_digit (hd (drop k s))" by simp_all
    then have "dropWhile is_space (drop k s) = drop k s"
      by (cases "drop k s") (auto dest: digit_not_space)
    moreover have "\<not> prefix lit (drop k s)"
      using that assms(1,3) by (rule not_prefix_drop)
    ultimately show ?thesis by simp
  qed
  have step1: "match_int_before lit s = first_match (concat (map F (greedy_splits is_digit 1 s)))"
    by (simp add: match_int_before_def space_splits_first [OF assms(1,2)] F_def)
  have step2: "greedy_splits is_digit 1 s =
      (takeWhile is_digit s, dropWhile is_digit s) #
      map (\<lambda>k. (take k s, drop k s)) (rev [1 ..< ?n])"
    using le by (simp add: greedy_splits_Cons)
  have step3: "concat (map (F \<circ> (\<lambda>k. (take k s, drop k s))) (rev [Suc 0 ..< ?n])) = []"
    by (rule concat_map_Nil) (use shorter in \<open>auto simp: F_def\<close>)
  have "match_int_before lit s = first_match (F (takeWhile is_digit s, dropWhile is_digit s))"
    unfolding step1 step2 by (simp add: step3)
  with False show ?thesis
    by (simp add: F_def first_match_def)
qed

section \<open>The sentinel values\<close>

text \<open>
  C8. An input whose stripped, lowered form is exactly \<^verbatim>\<open>unknown\<close>, \<^verbatim>\<open>-\<close> or the empty
  string is normalised to \<^verbatim>\<open>None\<close>, whatever the later rules would make of it: the test
  comes first in \<^verbatim>\<open>clean_value\<close>.
\<close>

theorem clean_value_sentinel:
  assumes "py_lower (py_strip raw) \<in> {''unknown'', ''-'', []}"
  shows "clean_value raw = Null"
  using assms by (auto simp: clean_value_def Let_def)

theorem clean_value_sentinel_witness:
  "py_lower (py_strip ([CHR 0xA0] @ '' UnKnown '' @ [CHR 0x85])) \<in> {''unknown'', ''-'', []} \<and>
   clean_value ([CHR 0xA0] @ '' UnKnown '' @ [CHR 0x85]) = Null"
proof -
  have h: "py_lower (py_strip ([CHR 0xA0] @ '' UnKnown '' @ [CHR 0x85])) \<in> {''unknown'', ''-'', []}"
    by (simp add: py_lower_def py_strip_def is_space_def lower_char_def upper_chars_def lower_chars_def)
  from h clean_value_sentinel [OF h] show ?thesis by simp
qed

section \<open>The request gate\<close>

text \<open>
  C10. An empty configured secret is false in Python, so the gate is off: with
  \<^verbatim>\<open>SERVER_API_KEY = ""\<close> every request is allowed, whatever its header and query
  argument are.
\<close>

theorem empty_secret_allows:
  "require_api_key (cfg\<lparr>SERVER_API_KEY := Some []\<rparr>) req = Allow"
  by (simp add: require_api_key_def truthy_def)

text \<open>
  C2. With no secret set the gate allows every request. With a non-empty secret \<open>S\<close> the
  request is allowed exactly when the \<^verbatim>\<open>Authorization\<close> header with every occurrence of
  \<^verbatim>\<open>"Bearer "\<close> removed (an absent header counts as empty) equals \<open>S\<close>, or the
  \<^verbatim>\<open>api_key\<close> argument equals \<open>S\<close>; otherwise the request is aborted with status 401.
\<close>

theorem require_api_key_decides:
  "(SERVER_API_KEY cfg = None \<longrightarrow> require_api_key cfg req = Allow) \<and>
   (\<forall>S. SERVER_API_KEY cfg = Some S \<and> S \<noteq> [] \<longrightarrow>
      (require_api_key cfg req = Allow \<longleftrightarrow>
         py_replace ''Bearer '' [] (case header_Authorization req of None \<Rightarrow> [] | Some h \<Rightarrow> h) = S
         \<or> arg_api_key req = Some S) \<and>
      (require_api_key cfg req \<noteq> Allow \<longrightarrow> require_api_key cfg req = Abort 401))"
  by (auto simp: require_api_key_def truthy_def Let_def)

theorem require_api_key_decides_witness:
  "require_api_key \<lparr>UPS_IP = None, USERNAME = None, PASSWORD = None, SERVER_API_KEY = None\<rparr>
     \<lparr>header_Authorization = Some ''garbage'', arg_api_key = Some ''x'', arg_format = None\<rparr> = Allow
   \<and> require_api_key \<lparr>UPS_IP = None, USERNAME = None, PASSWORD = None, SERVER_API_KEY = Some ''S''\<rparr>
     \<lparr>header_Authorization = Some ''Bearer S'', arg_api_key = None, arg_format = None\<rparr> = Allow
   \<and> require_api_key \<lparr>UPS_IP = None, USERNAME = None, PASSWORD = None, SERVER_API_KEY = Some ''S''\<rparr>
     \<lparr>header_Authorization = None, arg_api_key = Some ''T'', arg_format = None\<rparr> = Abort 401"
  using
    require_api_key_decides [of "\<lparr>UPS_IP = None, USERNAME = None, PASSWORD = None, SERVER_API_KEY = None\<rparr>"
      "\<lparr>header_Authorization = Some ''garbage'', arg_api_key = Some ''x'', arg_format = None\<rparr>"]
    require_api_key_decides [of "\<lparr>UPS_IP = None, USERNAME = None, PASSWORD = None, SERVER_API_KEY = Some ''S''\<rparr>"
      "\<lparr>header_Authorization = Some ''Bearer S'', arg_api_key = None, arg_format = None\<rparr>"]
    require_api_key_decides [of "\<lparr>UPS_IP = None, USERNAME = None, PASSWORD = None, SERVER_API_KEY = Some ''S''\<rparr>"
      "\<lparr>header_Authorization = None, arg_api_key = Some ''T'', arg_format = None\<rparr>"]
  by simp

text \<open>
  The header's key is not the header without a leading \<^verbatim>\<open>"Bearer "\<close>: the handler
  removes the marker wherever it stands, so \<^verbatim>\<open>abBearer c\<close> passes for the secret
  \<^verbatim>\<open>abc\<close>, and \<^verbatim>\<open>Bearer Bearer x\<close> does not pass for the secret \<^verbatim>\<open>Bearer x\<close>.
\<close>

theorem gate_not_leading_prefix:
  "require_api_key \<lparr>UPS_IP = None, USERNAME = None, PASSWORD = None, SERVER_API_KEY = Some ''abc''\<rparr>
     \<lparr>header_Authorization = Some ''abBearer c'', arg_api_key = None, arg_format = None\<rparr> = Allow
   \<and> spec_strip_bearer ''abBearer c'' \<noteq> ''abc''
   \<and> require_api_key \<lparr>UPS_IP = None, USERNAME = None, PASSWORD = None, SERVER_API_KEY = Some ''Bearer x''\<rparr>
     \<lparr>header_Authorization = Some ''Bearer Bearer x'', arg_api_key = None, arg_format = None\<rparr> = Abort 401
   \<and> spec_strip_bearer ''Bearer Bearer x'' = ''Bearer x''"
  by (simp add: require_api_key_def truthy_def spec_strip_bearer_def)

section \<open>The handler\<close>

text \<open>
  C9. When the one call of \<^verbatim>\<open>requests.get\<close> raises, the handler answers with status 500
  and the body \<^verbatim>\<open>{"error": msg}\<close>, \<open>msg\<close> the exception's message: the result is not a
  document, and the number of outbound calls has grown by exactly one, so nothing was tried
  again.
\<close>

theorem fetch_failure_500:
  assumes "net calls (ups_url cfg) (fetch_kwargs cfg) = Inl msg"
  shows "get_ups_data parse net now cfg req calls = (Inr (Response 500 (ErrorBody msg)), Suc calls)"
  using assms by (simp add: get_ups_data_def)

theorem fetch_failure_500_witness:
  "get_ups_data (\<lambda>t. NavigableString t) (\<lambda>n url kw. Inl ''timed out'') ''now''
     \<lparr>UPS_IP = Some ''10.0.0.1'', USERNAME = None, PASSWORD = None, SERVER_API_KEY = None\<rparr>
     \<lparr>header_Authorization = None, arg_api_key = None, arg_format = Some ''raw''\<rparr> 0
   = (Inr (Response 500 (ErrorBody ''timed out'')), Suc 0)"
  by (rule fetch_failure_500) simp

lemma tables_loop_titleless:
  "t \<in> set ts \<Longrightarrow> find_tag ''b'' (parse t) = None \<Longrightarrow>
   tables_loop parse fmt ts ups_data = Inl AttributeError"
proof (induction ts arbitrary: ups_data)
  case Nil
  then show ?case by simp
next
  case (Cons x xs)
  show ?case
  proof (cases "find_tag ''b'' (parse x)")
    case None
    then show ?thesis by simp
  next
    case (Some b)
    with Cons.prems have "t \<in> set xs" by auto
    with Cons.IH Cons.prems(2) Some show ?thesis by (simp add: Let_def)
  qed
qed

text \<open>
  C1. A table fragment without a \<^verbatim>\<open>b\<close> element is not skipped: \<^verbatim>\<open>soup.find("b")\<close> is
  \<^verbatim>\<open>None\<close>, \<^verbatim>\<open>.text\<close> raises \<^verbatim>\<open>AttributeError\<close>, and since nothing catches it the
  exception leaves the handler. Whenever one of the fragments found in a fetched payload has
  no \<^verbatim>\<open>b\<close> element, the request ends with that exception and no document, whatever the
  other fragments are.
\<close>

theorem titleless_table_aborts:
  assumes "net calls (ups_url cfg) (fetch_kwargs cfg) = Inr js_content"
    and "t \<in> set (findall_tables js_content)"
    and "find_tag ''b'' (parse t) = None"
  shows "get_ups_data parse net now cfg req calls = (Inl AttributeError, Suc calls)"
proof -
  have "tables_loop parse fmt (findall_tables js_content) [] = Inl AttributeError" for fmt
    using assms(2,3) by (rule tables_loop_titleless)
  with assms(1) show ?thesis
    by (simp add: get_ups_data_def)
qed

lemma findall_two_tables:
  "findall_tables two_tables = [''<TABLE></TABLE>'', ''<TABLE><b>Battery</b></TABLE>'']"
  unfolding two_tables_def by code_simp

theorem titleless_table_aborts_witness:
  "get_ups_data parse_two net_two ''now'' cfg0 req0 0 = (Inl AttributeError, Suc 0)"
proof (rule titleless_table_aborts)
  show "net_two 0 (ups_url cfg0) (fetch_kwargs cfg0) = Inr two_tables"
    by (simp add: net_two_def)
  show "''<TABLE></TABLE>'' \<in> set (findall_tables two_tables)"
    by (simp add: findall_two_tables)
  show "find_tag ''b'' (parse_two ''<TABLE></TABLE>'') = None"
    by (simp add: parse_two_def find_tag_def find_all_def first_match_def)
qed

text \<open>
  On a payload of two fragments, the first without a title, the request fails, although the
  second fragment alone produces a document.
\<close>

theorem titleless_table_not_skipped:
  "find_tag ''b'' (parse_two ''<TABLE></TABLE>'') = None
   \<and> get_ups_data parse_two net_two ''now'' cfg0 req0 0 = (Inl AttributeError, Suc 0)
   \<and> get_ups_data parse_two net_one ''now'' cfg0 req0 0 =
       (Inr (Response 200 (DocumentBody [(''timestamp'', JString ''now''), (''Battery'', JObject [])])),
        Suc 0)"
  by code_simp

section \<open>The fields of a table\<close>

lemma rows_loop_fold:
  "rows_loop fmt rows data =
     foldl (\<lambda>d (k, v). dict_set k (if fmt = ''raw'' then clean_value v else Str v) d) data
       (qualifying_fields rows)"
  by (induction rows arbitrary: data) (simp_all add: qualifying_fields_def Let_def)

text \<open>
  C3. For a table whose qualifying rows carry the labels \<open>A\<close>, \<open>B\<close>, \<open>A\<close> in this order
  (\<open>A\<close> and \<open>B\<close> different), the section's dictionary holds for \<open>A\<close> only the value of
  the second \<open>A\<close> row, and its keys stand in the order \<open>A\<close>, \<open>B\<close>: the assignment to a key
  that is present replaces the value in place. (This is the dictionary handed to
  \<^verbatim>\<open>jsonify\<close>; how the JSON encoder orders the keys of its output is outside the model.)
\<close>

theorem duplicate_label_keeps_first_position:
  assumes "qualifying_fields (find_all_class ''tr'' ''popupData'' soup) = [(A, v1), (B, v2), (A, v3)]"
    and "A \<noteq> B"
  shows "rows_loop fmt (find_all_class ''tr'' ''popupData'' soup) [] =
           [(A, if fmt = ''raw'' then clean_value v3 else Str v3),
            (B, if fmt = ''raw'' then clean_value v2 else Str v2)]"
  using assms by (simp add: rows_loop_fold)

lemma fields_table_aba:
  "qualifying_fields (find_all_class ''tr'' ''popupData'' table_aba)
     = [(''A'', ''1 V''), (''B'', ''2 V''), (''A'', ''3 V'')]"
  by code_simp

theorem duplicate_label_keeps_first_position_witness:
  "rows_loop ''json'' (find_all_class ''tr'' ''popupData'' table_aba) [] =
     [(''A'', Str ''3 V''), (''B'', Str ''2 V'')]"
  using duplicate_label_keeps_first_position [OF fields_table_aba, of "''json''"] by simp

text \<open>The order of the fields is not \<open>B\<close>, \<open>A\<close>.\<close>

theorem duplicate_label_order_not_B_A:
  "qualifying_fields (find_all_class ''tr'' ''popupData'' table_aba)
     = [(''A'', ''1 V''), (''B'', ''2 V''), (''A'', ''3 V'')]
   \<and> map fst (rows_loop ''json'' (find_all_class ''tr'' ''popupData'' table_aba) []) = [''A'', ''B'']
   \<and> map fst (rows_loop ''json'' (find_all_class ''tr'' ''popupData'' table_aba) []) \<noteq> [''B'', ''A'']"
  by code_simp

section \<open>Locating the table fragments\<close>

lemma py_in_iff: "py_in pat s \<longleftrightarrow> (\<exists>k\<le>length s. prefix pat (drop k s))"
proof (induction s)
  case Nil
  then show ?case by simp
next
  case (Cons c cs)
  show ?case
  proof
    assume "py_in pat (c # cs)"
    then consider "prefix pat (c # cs)" | "py_in pat cs" by auto
    then show "\<exists>k\<le>length (c # cs). prefix pat (drop k (c # cs))"
    proof cases
      case 1
      then have "prefix pat (drop 0 (c # cs))" by simp
      then show ?thesis by blast
    next
      case 2
      with Cons.IH obtain k where "k \<le> length cs" "prefix pat (drop k cs)" by blast
      then have "Suc k \<le> length (c # cs)" "prefix pat (drop (Suc k) (c # cs))" by simp_all
      then show ?thesis by blast
    qed
  next
    assume "\<exists>k\<le>length (c # cs). prefix pat (drop k (c # cs))"
    then obtain k where k: "k \<le> length (c # cs)" "prefix pat (drop k (c # cs))" by blast
    show "py_in pat (c # cs)"
    proof (cases k)
      case 0
      with k show ?thesis by simp
    next
      case (Suc j)
      with k have "j \<le> length cs" "prefix pat (drop j cs)" by simp_all
      with Cons.IH have "py_in pat cs" by blast
      then show ?thesis by simp
    qed
  qed
qed

lemma prefix_append_short: "prefix xs (ys @ zs) \<Longrightarrow> length xs \<le> length ys \<Longrightarrow> prefix xs ys"
  by (metis prefix_length_prefix prefixI)

lemma first_occurrence:
  assumes "\<not> py_in pat (pre @ butlast pat)" and "k < length pre"
  shows "\<not> prefix pat (drop k (pre @ pat @ rest))"
proof
  assume p: "prefix pat (drop k (pre @ pat @ rest))"
  from assms(1) have ne: "pat \<noteq> []"
    by (auto simp: py_in_iff)
  have "drop k (pre @ pat @ rest) = (drop k pre @ butlast pat) @ (last pat # rest)"
    using assms(2) ne by simp
  moreover have "length pat \<le> length (drop k pre @ butlast pat)"
    using assms(2) ne by (cases pat) auto
  ultimately have "prefix pat (drop k pre @ butlast pat)"
    using p prefix_append_short by metis
  then have "prefix pat (drop k (pre @ butlast pat))"
    using assms(2) by simp
  moreover have "k \<le> length (pre @ butlast pat)"
    using assms(2) by simp
  ultimately have "py_in pat (pre @ butlast pat)"
    unfolding py_in_iff by blast
  with assms(1) show False by simp
qed

lemma takeWhile_any: "takeWhile (\<lambda>c. True) r = r"
  by (induction r) simp_all

lemma lazy_any_splits:
  "lazy_splits (\<lambda>c. True) 0 r = map (\<lambda>k. (take k r, drop k r)) [0 ..< Suc (length r)]"
  unfolding lazy_splits_def takeWhile_any ..

lemma between_no_prefix:
  "\<not> prefix L s \<Longrightarrow>
   first_match [opn @ b @ e. (l, r) \<leftarrow> lit_splits L s, (b, r') \<leftarrow> lazy_splits (\<lambda>c. True) 0 r,
                  (e, r'') \<leftarrow> lit_splits E r'] = None"
  by (simp add: lit_splits_def first_match_def)

lemma between_hit:
  assumes "\<not> py_in E (body @ butlast E)"
  shows "first_match [opn @ b @ e. (l, r) \<leftarrow> lit_splits L (L @ body @ E @ rest),
                  (b, r') \<leftarrow> lazy_splits (\<lambda>c. True) 0 r, (e, r'') \<leftarrow> lit_splits E r']
         = Some (opn @ body @ E)"
proof -
  let ?r = "body @ E @ rest"
  let ?n = "length body"
  define G :: "string \<Rightarrow> nat \<Rightarrow> string list"
    where "G = (\<lambda>r k. if prefix E (drop k r) then [opn @ take k r @ E] else [])"
  have inner: "[opn @ b @ e. (e, r'') \<leftarrow> lit_splits E r'] = (if prefix E r' then [opn @ b @ E] else [])"
    for b r'
    by (simp add: lit_splits_def)
  have m: "[opn @ b @ e. (l, r) \<leftarrow> lit_splits L (L @ r0), (b, r') \<leftarrow> lazy_splits (\<lambda>c. True) 0 r,
                  (e, r'') \<leftarrow> lit_splits E r'] = concat (map (G r0) [0 ..< Suc (length r0)])" for r0
    unfolding lazy_any_splits inner
    by (simp add: lit_splits_def G_def comp_def del: upt_Suc)
  have s1: "[0 ..< Suc (length ?r)] = [0 ..< ?n] @ [?n ..< Suc (length ?r)]"
    using upt_add_eq_append [of 0 ?n "Suc (length ?r) - ?n"] by simp
  have s2: "[?n ..< Suc (length ?r)] = ?n # [Suc ?n ..< Suc (length ?r)]"
    by (rule upt_conv_Cons) simp
  have split: "[0 ..< Suc (length ?r)] = [0 ..< ?n] @ ?n # [Suc ?n ..< Suc (length ?r)]"
    using s1 unfolding s2 .
  have before: "concat (map (G ?r) [0 ..< ?n]) = []"
  proof (rule concat_map_Nil)
    fix k assume "k \<in> set [0 ..< ?n]"
    then have "k < ?n" by simp
    with assms have "\<not> prefix E (drop k ?r)"
      by (rule first_occurrence)
    then show "G ?r k = []" by (simp add: G_def)
  qed
  have at: "G ?r ?n = [opn @ body @ E]"
    by (simp add: G_def)
  show ?thesis
    unfolding m split by (simp add: before at first_match_def del: upt_Suc)
qed

lemma between_no_close:
  assumes "\<not> py_in E s"
  shows "first_match [opn @ b @ e. (l, r) \<leftarrow> lit_splits L s, (b, r') \<leftarrow> lazy_splits (\<lambda>c. True) 0 r,
                  (e, r'') \<leftarrow> lit_splits E r'] = None"
proof -
  have no: "\<not> prefix E (drop k s)" for k
  proof (cases "k \<le> length s")
    case True
    with assms show ?thesis by (auto simp: py_in_iff)
  next
    case False
    moreover from assms have "\<not> prefix E (drop (length s) s)"
      unfolding py_in_iff by blast
    ultimately show ?thesis by simp
  qed
  have e: "prefix E (drop k s) = False" for k
    using no [of k] by simp
  have z: "concat (map (\<lambda>x. []) ks) = ([] :: string list)" for ks :: "nat list"
    by (induction ks) simp_all
  show ?thesis
    unfolding lazy_any_splits
    by (simp add: lit_splits_def first_match_def e z comp_def del: upt_Suc)
qed

lemma match_table_no_prefix: "\<not> prefix ''label=<TABLE'' s \<Longrightarrow> match_table s = None"
  unfolding match_table_def by (rule between_no_prefix)

lemma match_table_no_close: "\<not> py_in ''</TABLE>'' s \<Longrightarrow> match_table s = None"
  unfolding match_table_def by (rule between_no_close)

lemma match_table_hit:
  assumes "\<not> py_in ''</TABLE>'' (body @ ''</TABLE'')"
  shows "match_table (''label=<TABLE'' @ body @ ''</TABLE>'' @ rest) = Some (''<TABLE'' @ body @ ''</TABLE>'')"
proof -
  have "butlast ''</TABLE>'' = ''</TABLE''" by simp
  with assms have "\<not> py_in ''</TABLE>'' (body @ butlast ''</TABLE>'')" by simp
  then show ?thesis
    unfolding match_table_def by (rule between_hit)
qed

lemma findall_tables_none:
  "(\<And>k. k \<le> length s \<Longrightarrow> match_table (drop k s) = None) \<Longrightarrow> findall_tables s = []"
proof (induction s)
  case Nil
  then show ?case by simp
next
  case (Cons c cs)
  have "match_table (c # cs) = None"
    using Cons.prems [of 0] by simp
  moreover have "findall_tables cs = []"
  proof (rule Cons.IH)
    fix k assume "k \<le> length cs"
    then show "match_table (drop k cs) = None"
      using Cons.prems [of "Suc k"] by simp
  qed
  ultimately show ?case by simp
qed

lemma findall_tables_skip:
  "(\<And>k. k < length pre \<Longrightarrow> match_table (drop k (pre @ s)) = None) \<Longrightarrow>
   findall_tables (pre @ s) = findall_tables s"
proof (induction pre)
  case Nil
  then show ?case by simp
next
  case (Cons c cs)
  have "match_table (c # cs @ s) = None"
    using Cons.prems [of 0] by simp
  moreover have "findall_tables (cs @ s) = findall_tables s"
  proof (rule Cons.IH)
    fix k assume "k < length cs"
    then show "match_table (drop k (cs @ s)) = None"
      using Cons.prems [of "Suc k"] by simp
  qed
  ultimately show ?case by simp
qed

lemma findall_tables_step:
  "s \<noteq> [] \<Longrightarrow> match_table s = Some g \<Longrightarrow>
   findall_tables s = g # findall_tables (drop (length ''label='' + length g) s)"
  by (cases s) simp_all

text \<open>
  C7. The scan for \<^verbatim>\<open>label=<TABLE ... </TABLE>\<close> is case-sensitive: the tag is matched in
  upper case only. A text in which \<^verbatim>\<open>label=<TABLE\<close> or \<^verbatim>\<open></TABLE>\<close> does not occur
  has no fragment. In a text whose first \<^verbatim>\<open>label=<TABLE\<close> stands after \<open>pre\<close> and is
  followed by \<open>body\<close> up to the first \<^verbatim>\<open></TABLE>\<close>, the first fragment is
  \<^verbatim>\<open><TABLE\<close>, \<open>body\<close>, \<^verbatim>\<open></TABLE>\<close>, whatever characters \<open>body\<close> is made of (line
  breaks too), and the scan goes on in the rest of the text after it: the matches are
  collected from left to right and do not overlap.
\<close>

theorem findall_tables_scan:
  "(\<not> py_in ''label=<TABLE'' s \<or> \<not> py_in ''</TABLE>'' s \<longrightarrow> findall_tables s = []) \<and>
   (\<not> py_in ''label=<TABLE'' (pre @ ''label=<TABL'') \<and> \<not> py_in ''</TABLE>'' (body @ ''</TABLE'') \<longrightarrow>
      findall_tables (pre @ ''label=<TABLE'' @ body @ ''</TABLE>'' @ rest) =
        (''<TABLE'' @ body @ ''</TABLE>'') # findall_tables rest)"
proof (intro conjI impI)
  assume a: "\<not> py_in ''label=<TABLE'' s \<or> \<not> py_in ''</TABLE>'' s"
  show "findall_tables s = []"
  proof (rule findall_tables_none)
    fix k assume k: "k \<le> length s"
    from a show "match_table (drop k s) = None"
    proof
      assume "\<not> py_in ''label=<TABLE'' s"
      with k have "\<not> prefix ''label=<TABLE'' (drop k s)"
        unfolding py_in_iff by blast
      then show ?thesis by (rule match_table_no_prefix)
    next
      assume n: "\<not> py_in ''</TABLE>'' s"
      have "\<not> py_in ''</TABLE>'' (drop k s)"
      proof
        assume "py_in ''</TABLE>'' (drop k s)"
        then obtain j where "j \<le> length (drop k s)" "prefix ''</TABLE>'' (drop j (drop k s))"
          unfolding py_in_iff by blast
        with k have "j + k \<le> length s" "prefix ''</TABLE>'' (drop (j + k) s)"
          by (simp_all add: add.commute)
        with n show False unfolding py_in_iff by blast
      qed
      then show ?thesis by (rule match_table_no_close)
    qed
  qed
next
  assume b: "\<not> py_in ''label=<TABLE'' (pre @ ''label=<TABL'') \<and> \<not> py_in ''</TABLE>'' (body @ ''</TABLE'')"
  let ?t = "''label=<TABLE'' @ body @ ''</TABLE>'' @ rest"
  have "butlast ''label=<TABLE'' = ''label=<TABL''" by simp
  with b have first: "\<not> py_in ''label=<TABLE'' (pre @ butlast ''label=<TABLE'')" by simp
  have skip: "findall_tables (pre @ ?t) = findall_tables ?t"
  proof (rule findall_tables_skip)
    fix k assume "k < length pre"
    with first have "\<not> prefix ''label=<TABLE'' (drop k (pre @ ?t))"
      by (rule first_occurrence)
    then show "match_table (drop k (pre @ ?t)) = None"
      by (rule match_table_no_prefix)
  qed
  have hit: "match_table ?t = Some (''<TABLE'' @ body @ ''</TABLE>'')"
    using b by (intro match_table_hit) simp
  have "?t \<noteq> []" by simp
  from findall_tables_step [OF this hit]
  have "findall_tables ?t = (''<TABLE'' @ body @ ''</TABLE>'') # findall_tables rest"
    by simp
  with skip show "findall_tables (pre @ ?t) = (''<TABLE'' @ body @ ''</TABLE>'') # findall_tables rest"
    by simp
qed

theorem findall_tables_scan_witness:
  "findall_tables (''x=1;'' @ ''label=<TABLE'' @ (''>'' @ [CHR 0x0A] @ ''<b>A</b>'') @ ''</TABLE>'' @ '';'')
     = [''<TABLE'' @ (''>'' @ [CHR 0x0A] @ ''<b>A</b>'') @ ''</TABLE>'']"
proof -
  have 1: "\<not> py_in ''label=<TABLE'' '';'' \<or> \<not> py_in ''</TABLE>'' '';''"
    by simp
  have 2: "\<not> py_in ''label=<TABLE'' (''x=1;'' @ ''label=<TABL'') \<and>
           \<not> py_in ''</TABLE>'' ((''>'' @ [CHR 0x0A] @ ''<b>A</b>'') @ ''</TABLE'')"
    by simp
  from findall_tables_scan [of "'';''" "''x=1;''" "''>'' @ [CHR 0x0A] @ ''<b>A</b>''" "'';''"] 1 2
  have "findall_tables '';'' = []"
    and "findall_tables (''x=1;'' @ ''label=<TABLE'' @ (''>'' @ [CHR 0x0A] @ ''<b>A</b>'') @ ''</TABLE>'' @ '';'')
           = (''<TABLE'' @ (''>'' @ [CHR 0x0A] @ ''<b>A</b>'') @ ''</TABLE>'') # findall_tables '';''"
    by blast+
  then show ?thesis by (simp only:)
qed

text \<open>A fragment written with a lower-case tag is not found.\<close>

theorem findall_tables_lower_case_missed:
  "findall_tables ''label=<table><b>Battery</b></table>'' = []
   \<and> findall_tables ''label=<TABLE><b>Battery</b></TABLE>'' = [''<TABLE><b>Battery</b></TABLE>'']"
  by code_simp

section \<open>The duration rule\<close>

lemma re_search_hit: "m s = Some g \<Longrightarrow> re_search m s = Some g"
  by (cases s) simp_all

lemma re_search_skip:
  "(\<And>k. k < length pre \<Longrightarrow> m (drop k (pre @ s)) = None) \<Longrightarrow>
   re_search m (pre @ s) = re_search m s"
proof (induction pre)
  case Nil
  then show ?case by simp
next
  case (Cons c cs)
  have "m (c # cs @ s) = None"
    using Cons.prems [of 0] by simp
  moreover have "re_search m (cs @ s) = re_search m s"
  proof (rule Cons.IH)
    fix k assume "k < length cs"
    then show "m (drop k (cs @ s)) = None"
      using Cons.prems [of "Suc k"] by simp
  qed
  ultimately show ?case by simp
qed

lemma run_then_stop:
  assumes "list_all P ds" and "r = [] \<or> \<not> P (hd r)"
  shows "takeWhile P (ds @ r) = ds" and "dropWhile P (ds @ r) = r"
proof -
  have t: "takeWhile P r = []" and d: "dropWhile P r = r"
    using assms(2) by (cases r; auto)+
  from assms(1) have all: "\<And>x. x \<in> set ds \<Longrightarrow> P x"
    by (simp add: list_all_iff)
  show "takeWhile P (ds @ r) = ds"
    using all t by (simp add: takeWhile_append2)
  show "dropWhile P (ds @ r) = r"
    using all d by (simp add: dropWhile_append2)
qed

lemma mn_s_literals:
  "''mn'' \<noteq> []" "\<not> is_space (hd ''mn'')" "\<not> is_digit (hd ''mn'')"
  "''s'' \<noteq> []" "\<not> is_space (hd ''s'')" "\<not> is_digit (hd ''s'')"
  by (simp_all add: is_space_def is_digit_def)

lemma match_at_run:
  assumes "ds \<noteq> []" "list_all is_digit ds" "list_all is_space w"
    and lit: "lit \<noteq> []" "\<not> is_space (hd lit)" "\<not> is_digit (hd lit)"
  shows "match_int_before lit (ds @ w @ lit @ rest) = Some ds"
proof -
  have nd: "\<not> is_digit (hd (w @ lit @ rest))"
  proof (cases w)
    case Nil
    with lit show ?thesis by simp
  next
    case (Cons c cs)
    with assms(3) have "is_space c" by simp
    with digit_not_space Cons show ?thesis by auto
  qed
  have ns: "\<not> is_space (hd (lit @ rest))"
    using lit by simp
  have 1: "takeWhile is_digit (ds @ w @ lit @ rest) = ds"
    and 2: "dropWhile is_digit (ds @ w @ lit @ rest) = w @ lit @ rest"
    using assms(2) nd by (simp_all add: run_then_stop)
  have 3: "dropWhile is_space (w @ lit @ rest) = lit @ rest"
    using assms(3) ns by (simp add: run_then_stop)
  show ?thesis
    unfolding match_int_before_simp [OF lit] 1 2 3 using assms(1) by simp
qed

lemma no_match_at_nondigit:
  assumes "s = [] \<or> \<not> is_digit (hd s)"
    and lit: "lit \<noteq> []" "\<not> is_space (hd lit)" "\<not> is_digit (hd lit)"
  shows "match_int_before lit s = None"
proof -
  from assms(1) have "takeWhile is_digit s = []" by (cases s) auto
  then show ?thesis
    unfolding match_int_before_simp [OF lit] by simp
qed

lemma re_search_skip_nondigits:
  assumes "list_all (\<lambda>c. \<not> is_digit c) w"
    and lit: "lit \<noteq> []" "\<not> is_space (hd lit)" "\<not> is_digit (hd lit)"
  shows "re_search (match_int_before lit) (w @ s) = re_search (match_int_before lit) s"
proof (rule re_search_skip)
  fix k assume k: "k < length w"
  then have "drop k (w @ s) = w ! k # drop (Suc k) w @ s"
    by (simp add: Cons_nth_drop_Suc)
  moreover from k assms(1) have "\<not> is_digit (w ! k)"
    by (simp add: list_all_length)
  ultimately have "drop k (w @ s) = [] \<or> \<not> is_digit (hd (drop k (w @ s)))"
    by simp
  then show "match_int_before lit (drop k (w @ s)) = None"
    using lit by (rule no_match_at_nondigit)
qed

lemma re_search_skip_run:
  assumes "list_all is_digit ds" "list_all is_space w"
    and r: "r \<noteq> []" "\<not> is_digit (hd r)" "\<not> is_space (hd r)" "\<not> prefix lit r"
    and lit: "lit \<noteq> []" "\<not> is_space (hd lit)" "\<not> is_digit (hd lit)"
  shows "re_search (match_int_before lit) (ds @ w @ r) = re_search (match_int_before lit) (w @ r)"
proof (rule re_search_skip)
  fix k assume k: "k < length ds"
  have nd: "\<not> is_digit (hd (w @ r))"
  proof (cases w)
    case Nil
    with r show ?thesis by simp
  next
    case (Cons c cs)
    with assms(2) have "is_space c" by simp
    with digit_not_space Cons show ?thesis by auto
  qed
  have run: "list_all is_digit (drop k ds)"
    using assms(1) by (auto simp: list_all_iff dest: in_set_dropD)
  have d: "drop k (ds @ w @ r) = drop k ds @ w @ r"
    using k by simp
  have 2: "dropWhile is_digit (drop k ds @ w @ r) = w @ r"
    using run nd by (simp add: run_then_stop)
  have 3: "dropWhile is_space (w @ r) = r"
    using assms(2) r by (simp add: run_then_stop)
  show "match_int_before lit (drop k (ds @ w @ r)) = None"
    unfolding match_int_before_simp [OF lit] d 2 3 using r by simp
qed

lemma py_strip_core:
  assumes "list_all is_space w1" "list_all is_space w5"
    and "x \<noteq> []" "\<not> is_space (hd x)" "\<not> is_space (last x)"
  shows "py_strip (w1 @ x @ w5) = x"
proof -
  have "dropWhile is_space (w1 @ x @ w5) = x @ w5"
    using assms(1,3,4) by (simp add: run_then_stop)
  moreover have "dropWhile is_space (rev w5 @ rev x) = rev x"
    using assms(2,3,5) by (intro run_then_stop) (simp_all add: hd_rev)
  ultimately show ?thesis
    by (simp add: py_strip_def)
qed

lemma py_lower_append: "py_lower (xs @ ys) = py_lower xs @ py_lower ys"
  by (simp add: py_lower_def)

lemma py_lower_digits: "list_all is_digit ds \<Longrightarrow> py_lower ds = ds"
  by (simp add: py_lower_def list_all_iff lower_char_digit map_idI)

lemma py_lower_spaces: "list_all is_space w \<Longrightarrow> py_lower w = w"
  by (simp add: py_lower_def list_all_iff lower_char_space map_idI)

lemma py_in_append: "py_in pat (xs @ pat @ ys)"
proof -
  have "length xs \<le> length (xs @ pat @ ys)" "prefix pat (drop (length xs) (xs @ pat @ ys))"
    by simp_all
  then show ?thesis unfolding py_in_iff by blast
qed

lemma py_int_digits:
  "ds \<noteq> [] \<Longrightarrow> list_all is_digit ds \<Longrightarrow> length ds \<le> max_str_digits \<Longrightarrow>
   py_int ds = Inr (int (nat_of_digits ds))"
  by (simp add: py_int_def)

lemma py_int_too_long: "max_str_digits < length ds \<Longrightarrow> py_int ds = Inl ValueError"
  by (simp add: py_int_def)

lemma lower_to_nonspace:
  assumes "py_lower x = lit" "lit \<noteq> []" "\<not> is_space (last lit)"
  shows "x \<noteq> []" "\<not> is_space (last x)"
proof -
  from assms(1,2) show ne: "x \<noteq> []" by (auto simp: py_lower_def)
  show "\<not> is_space (last x)"
  proof
    assume sp: "is_space (last x)"
    have "last lit = lower_char (last x)"
      using assms(1) ne by (auto simp: py_lower_def last_map)
    with sp lower_char_space have "last lit = last x" by simp
    with sp assms(3) show False by simp
  qed
qed

text \<open>
  What the two searches find in a value of this form, whatever the lengths of the runs.
\<close>

lemma duration_searches:
  assumes d1: "ds1 \<noteq> []" "list_all is_digit ds1"
    and d2: "ds2 \<noteq> []" "list_all is_digit ds2"
    and ws: "list_all is_space w1" "list_all is_space w2" "list_all is_space w3"
      "list_all is_space w4" "list_all is_space w5"
    and mn: "py_lower mn = ''mn''"
    and sec: "py_lower sec = ''s''"
  defines "val \<equiv> ds1 @ w2 @ ''mn'' @ w3 @ ds2 @ w4 @ ''s''"
  shows "py_lower (py_strip (w1 @ ds1 @ w2 @ mn @ w3 @ ds2 @ w4 @ sec @ w5)) = val"
    and "val \<notin> set [''unknown'', ''-'', []]"
    and "py_in ''mn'' val" and "py_in ''s'' val"
    and "re_search (match_int_before ''mn'') val = Some ds1"
    and "re_search (match_int_before ''s'') val = Some ds2"
proof -
  define x where "x = ds1 @ w2 @ mn @ w3 @ ds2 @ w4 @ sec"
  define tl2 where "tl2 = ds2 @ w4 @ ''s'' @ []"
  have val: "val = ds1 @ w2 @ ''mn'' @ w3 @ tl2"
    by (simp add: val_def tl2_def)
  have s_lit: "''s'' \<noteq> []" "\<not> is_space (last ''s'')"
    by (simp_all add: is_space_def)
  from lower_to_nonspace [OF sec s_lit]
  have sec_ne: "sec \<noteq> []" and sec_ns: "\<not> is_space (last sec)" .
  have x_ne: "x \<noteq> []"
    using d1 by (simp add: x_def)
  have x_hd: "\<not> is_space (hd x)"
    using d1 digit_not_space [of "hd ds1"] by (cases ds1) (auto simp: x_def)
  have x_last: "\<not> is_space (last x)"
    using sec_ne sec_ns by (simp add: x_def)
  have raw: "w1 @ ds1 @ w2 @ mn @ w3 @ ds2 @ w4 @ sec @ w5 = w1 @ x @ w5"
    by (simp add: x_def)
  have strip: "py_strip (w1 @ x @ w5) = x"
    using ws(1,5) x_ne x_hd x_last by (rule py_strip_core)
  have lower: "py_lower x = val"
    unfolding x_def val tl2_def py_lower_append
    using d1 d2 ws mn sec by (simp add: py_lower_digits py_lower_spaces)
  show "py_lower (py_strip (w1 @ ds1 @ w2 @ mn @ w3 @ ds2 @ w4 @ sec @ w5)) = val"
    unfolding raw strip by (rule lower)
  show "val \<notin> set [''unknown'', ''-'', []]"
    using d1 by (cases ds1) (auto simp: val is_digit_def)
  show "py_in ''mn'' val"
    using py_in_append [of "''mn''" "ds1 @ w2" "w3 @ tl2"] by (simp add: val)
  show "py_in ''s'' val"
    using py_in_append [of "''s''" "ds1 @ w2 @ ''mn'' @ w3 @ ds2 @ w4" "[]"]
    by (simp add: val tl2_def)
  have "match_int_before ''mn'' (ds1 @ w2 @ ''mn'' @ w3 @ tl2) = Some ds1"
    using d1 ws(2) mn_s_literals(1-3) by (rule match_at_run)
  then show "re_search (match_int_before ''mn'') val = Some ds1"
    unfolding val by (rule re_search_hit)
  have nondig: "list_all (\<lambda>c. \<not> is_digit c) (w2 @ ''mn'' @ w3)"
    using ws(2,3) digit_not_space by (auto simp: list_all_iff is_digit_def)
  have "re_search (match_int_before ''s'') (ds1 @ w2 @ (''mn'' @ w3 @ tl2))
        = re_search (match_int_before ''s'') (w2 @ (''mn'' @ w3 @ tl2))"
    using d1(2) ws(2) by (rule re_search_skip_run) (simp_all add: is_digit_def is_space_def)
  also have "\<dots> = re_search (match_int_before ''s'') ((w2 @ ''mn'' @ w3) @ tl2)"
    by simp
  also have "\<dots> = re_search (match_int_before ''s'') tl2"
    using nondig mn_s_literals(4-6) by (rule re_search_skip_nondigits)
  also have "\<dots> = Some ds2"
    unfolding tl2_def
    by (rule re_search_hit, rule match_at_run) (use d2 ws(4) mn_s_literals in simp_all)
  finally show "re_search (match_int_before ''s'') val = Some ds2"
    by (simp add: val)
qed

text \<open>
  C6. An input made of a run of digits \<open>ds1\<close>, the marker \<^verbatim>\<open>mn\<close>, a run of digits \<open>ds2\<close>
  and the marker \<^verbatim>\<open>s\<close>, the markers in any letter case and any white space (or none)
  around and between the four parts, is normalised to the integer \<open>N * 60 + M\<close>, where \<open>N\<close>
  and \<open>M\<close> are the numbers that \<open>ds1\<close> and \<open>ds2\<close> write in decimal, provided that neither
  run is longer than the 4300 digits that \<^verbatim>\<open>int\<close> converts.
\<close>

theorem clean_value_duration:
  assumes d1: "ds1 \<noteq> []" "list_all is_digit ds1" "length ds1 \<le> max_str_digits"
    and d2: "ds2 \<noteq> []" "list_all is_digit ds2" "length ds2 \<le> max_str_digits"
    and ws: "list_all is_space w1" "list_all is_space w2" "list_all is_space w3"
      "list_all is_space w4" "list_all is_space w5"
    and mn: "py_lower mn = ''mn''"
    and sec: "py_lower sec = ''s''"
  shows "clean_value (w1 @ ds1 @ w2 @ mn @ w3 @ ds2 @ w4 @ sec @ w5) =
           IntV (int (nat_of_digits ds1) * 60 + int (nat_of_digits ds2))"
proof -
  define val where "val = ds1 @ w2 @ ''mn'' @ w3 @ ds2 @ w4 @ ''s''"
  note s = duration_searches [OF d1(1,2) d2(1,2) ws mn sec, folded val_def]
  have "clean_try val = Inr (IntV (int (nat_of_digits ds1) * 60 + int (nat_of_digits ds2)))"
    by (simp add: clean_try_def s(3-6) py_int_digits [OF d1] py_int_digits [OF d2])
  with s(2) show ?thesis
    unfolding clean_value_def s(1) by (simp add: Let_def)
qed

theorem clean_value_duration_witness:
  "clean_value ([CHR 0xA0] @ ''40'' @ [CHR 0xA0] @ ''MN'' @ '' '' @ ''22'' @ [] @ ''S'' @ ''  '') = IntV 2422"
  using clean_value_duration [of "''40''" "''22''" "[CHR 0xA0]" "[CHR 0xA0]" "'' ''" "[]" "''  ''" "''MN''" "''S''"]
  by (simp add: is_digit_def is_space_def py_lower_def lower_char_def upper_chars_def lower_chars_def
      nat_of_digits_def digit_val_def max_str_digits_def)

text \<open>
  When the first run is longer than that, \<^verbatim>\<open>int\<close> raises \<^verbatim>\<open>ValueError\<close>, the
  \<^verbatim>\<open>except\<close> branch catches it and the value comes back as a string.
\<close>

lemma duration_too_long:
  assumes d1: "ds1 \<noteq> []" "list_all is_digit ds1" "max_str_digits < length ds1"
    and d2: "ds2 \<noteq> []" "list_all is_digit ds2"
    and ws: "list_all is_space w1" "list_all is_space w2" "list_all is_space w3"
      "list_all is_space w4" "list_all is_space w5"
    and mn: "py_lower mn = ''mn''"
    and sec: "py_lower sec = ''s''"
  shows "clean_value (w1 @ ds1 @ w2 @ mn @ w3 @ ds2 @ w4 @ sec @ w5) =
           Str (ds1 @ w2 @ ''mn'' @ w3 @ ds2 @ w4 @ ''s'')"
proof -
  define val where "val = ds1 @ w2 @ ''mn'' @ w3 @ ds2 @ w4 @ ''s''"
  note s = duration_searches [OF d1(1,2) d2(1,2) ws mn sec, folded val_def]
  have "clean_try val = Inl ValueError"
    by (simp add: clean_try_def s(3-6) py_int_too_long [OF d1(3)])
  with s(2) show ?thesis
    unfolding clean_value_def s(1) by (simp add: Let_def val_def)
qed

text \<open>
  A minutes run of 4301 digits: the result is the stripped and lowered string, not the
  integer \<open>N * 60 + M\<close>.
\<close>

theorem duration_beyond_int_limit:
  "clean_value (replicate 4301 (CHR ''1'') @ '' '' @ ''mn'' @ '' '' @ ''1'' @ '' '' @ ''s'') =
     Str (replicate 4301 (CHR ''1'') @ '' '' @ ''mn'' @ '' '' @ ''1'' @ '' '' @ ''s'')
   \<and> clean_value (replicate 4301 (CHR ''1'') @ '' '' @ ''mn'' @ '' '' @ ''1'' @ '' '' @ ''s'') \<noteq>
     IntV (int (nat_of_digits (replicate 4301 (CHR ''1''))) * 60 + int (nat_of_digits ''1''))"
proof -
  have "clean_value ([] @ replicate 4301 (CHR ''1'') @ '' '' @ ''mn'' @ '' '' @ ''1'' @ '' '' @ ''s'' @ []) =
     Str (replicate 4301 (CHR ''1'') @ '' '' @ ''mn'' @ '' '' @ ''1'' @ '' '' @ ''s'')"
    by (rule duration_too_long)
      (simp_all add: list_all_iff is_digit_def is_space_def py_lower_def lower_char_def
        upper_chars_def lower_chars_def max_str_digits_def)
  then show ?thesis
    by (simp)
qed

text \<open>
  C5. When the value contains \<^verbatim>\<open>mn\<close> and \<^verbatim>\<open>s\<close> but one of the two searches for a run of
  digits before the marker finds nothing, \<^verbatim>\<open>.group\<close> raises inside the \<^verbatim>\<open>try\<close> block and
  the \<^verbatim>\<open>except\<close> branch returns the stripped and lowered value as a string: no error
  leaves \<^verbatim>\<open>clean_value\<close>, and the generic search for a numeral is not reached.
\<close>

theorem duration_rule_failure_passes_through:
  assumes "val = py_lower (py_strip raw)"
    and "val \<notin> {''unknown'', ''-'', []}"
    and "py_in ''mn'' val" and "py_in ''s'' val"
    and "re_search (match_int_before ''mn'') val = None \<or> re_search (match_int_before ''s'') val = None"
  shows "clean_value raw = Str val"
proof -
  have "\<exists>e. clean_try val = Inl e"
    using assms(3-5) by (auto simp: clean_try_def split: option.splits sum.splits)
  with assms(1,2) show ?thesis
    by (auto simp: clean_value_def Let_def)
qed

theorem duration_rule_failure_passes_through_witness:
  "clean_value ''mn 30 S'' = Str ''mn 30 s''"
proof -
  have v: "''mn 30 s'' = py_lower (py_strip ''mn 30 S'')"
    by (simp add: py_lower_def py_strip_def is_space_def lower_char_def upper_chars_def lower_chars_def)
  have n: "re_search (match_int_before ''mn'') ''mn 30 s'' = None"
    by code_simp
  show ?thesis
  proof (rule duration_rule_failure_passes_through [OF v])
    show "''mn 30 s'' \<notin> {''unknown'', ''-'', []}" by simp
    show "py_in ''mn'' ''mn 30 s''" by simp
    show "py_in ''s'' ''mn 30 s''" by simp
    show "re_search (match_int_before ''mn'') ''mn 30 s'' = None \<or>
          re_search (match_int_before ''s'') ''mn 30 s'' = None"
      using n by (rule disjI1)
  qed
qed

text \<open>
  For \<^verbatim>\<open>mn 30 s\<close> the generic search would find \<^verbatim>\<open>30\<close>, yet the result is the string.
\<close>

theorem duration_rule_no_fall_through:
  "py_in ''mn'' ''mn 30 s'' \<and> py_in ''s'' ''mn 30 s''
   \<and> re_search (match_int_before ''mn'') ''mn 30 s'' = None
   \<and> re_search match_numeral ''mn 30 s'' = Some ''30''
   \<and> py_float ''30'' = Inr (Fin 30)
   \<and> clean_value ''mn 30 s'' = Str ''mn 30 s''
   \<and> clean_value ''mn 30 s'' \<noteq> Number (Fin 30)"
  by code_simp

section \<open>Values without a numeral\<close>




























end
